theory Spec2Isabelle
  imports Complex_Main "HOL-Library.Char_ord" "HOL-Library.List_Lexorder"
begin

section \<open>Python values shared by the laboratory's modules\<close>

text \<open>
  The exceptions of Python that the modelled functions can raise.  A function that can
  raise returns \<open>py_error + 'a\<close>, with \<open>Inl\<close> for the exception.  Messages are kept
  for the exceptions of a backend only.
\<close>

datatype py_error =
  ZeroDivisionError | ValueError | IndexError | TypeError | RuntimeError string | KeyboardInterrupt


text \<open>
  A Python \<open>dict\<close> keeps its keys in insertion order, and \<open>max\<close> and \<open>list(d.keys())\<close>
  observe that order, so a dict is an association list with distinct keys:
  \<open>d[k] = v\<close> overwrites in place when \<open>k\<close> is present and appends otherwise.
\<close>

type_synonym ('k, 'v) dict = "('k \<times> 'v) list"

fun dict_set :: "'k \<Rightarrow> 'v \<Rightarrow> ('k, 'v) dict \<Rightarrow> ('k, 'v) dict" where
  "dict_set k v [] = [(k, v)]"
| "dict_set k v ((k', v') # d) = (if k' = k then (k, v) # d else (k', v') # dict_set k v d)"

definition dict_get :: "('k, 'v) dict \<Rightarrow> 'k \<Rightarrow> 'v \<Rightarrow> 'v" where
  "dict_get d k dflt = (case map_of d k of None \<Rightarrow> dflt | Some v \<Rightarrow> v)"

text \<open>
  \<open>str.upper\<close> on the ASCII letters.  The gate tokens compared against are \<open>H\<close>, \<open>X\<close>,
  \<open>Y\<close>, \<open>Z\<close>, \<open>CNOT\<close> and \<open>RZ\<close>; no character outside ASCII has one of their letters as
  its upper case, so the bytes above 127 are left as they are.
\<close>

definition upper_char :: "char \<Rightarrow> char" where
  "upper_char c =
     (if 97 \<le> (of_char c :: nat) \<and> (of_char c :: nat) \<le> 122
      then Char (digit0 c) (digit1 c) (digit2 c) (digit3 c) (digit4 c) False (digit6 c) (digit7 c)
      else c)"

definition upper :: "string \<Rightarrow> string" where
  "upper s = map upper_char s"


section \<open>Circuits\<close>

text \<open>
  The gate operations that the modules append to a circuit, each bound to its qubit
  indices.  \<open>CPhase \<theta> a b\<close> multiplies the amplitude by \<open>exp (i \<theta>)\<close> where both qubits
  are 1: it is Qiskit's \<open>cp(\<theta>, a, b)\<close> and Cirq's \<open>CZPowGate(exponent=t)\<close> with
  \<open>\<theta> = \<pi> t\<close>.
\<close>

datatype gate =
    H_gate nat
  | X_gate nat
  | Y_gate nat
  | Z_gate nat
  | CNOT_gate nat nat
  | RZ_gate real nat
  | RY_gate real nat
  | CPhase real nat nat
  | SWAP_gate nat nat

datatype op = Apply gate | Measure "nat list"


subsection \<open>\<open>create_quantum_circuit\<close> (quantum implementations)\<close>

text \<open>
  The body of the loop \<open>for i, gate in enumerate(gates)\<close>, the same chain of
  \<open>if\<close>/\<open>elif\<close> in the Qiskit and in the Cirq module: the operations appended for the
  token at position \<open>i\<close>.  The chain has no \<open>else\<close>.
\<close>

definition bind_token :: "nat \<Rightarrow> nat \<Rightarrow> string \<Rightarrow> op list" where
  "bind_token num_qubits i gate =
     (let qubit_idx = i mod num_qubits in
      if upper gate = ''H'' then [Apply (H_gate qubit_idx)]
      else if upper gate = ''X'' then [Apply (X_gate qubit_idx)]
      else if upper gate = ''Y'' then [Apply (Y_gate qubit_idx)]
      else if upper gate = ''Z'' then [Apply (Z_gate qubit_idx)]
      else if upper gate = ''CNOT'' \<and> num_qubits > 1 then
        (let control = qubit_idx; target = (qubit_idx + 1) mod num_qubits
         in [Apply (CNOT_gate control target)])
      else if upper gate = ''RZ'' then [Apply (RZ_gate (pi / 4) qubit_idx)]
      else [])"

text \<open>
  The loop itself.  \<open>i % num_qubits\<close> is evaluated for every token before the token is
  looked at, so with \<open>num_qubits = 0\<close> the first token raises \<open>ZeroDivisionError\<close>.
\<close>

fun bind_loop :: "nat \<Rightarrow> nat \<Rightarrow> string list \<Rightarrow> op list \<Rightarrow> py_error + op list" where
  "bind_loop num_qubits i [] circuit = Inr circuit"
| "bind_loop num_qubits i (gate # gates) circuit =
     (if num_qubits = 0 then Inl ZeroDivisionError
      else bind_loop num_qubits (Suc i) gates (circuit @ bind_token num_qubits i gate))"

text \<open>
  The entry stored in \<open>self.circuits\<close> and the dictionary returned.  The fields computed by
  the library from the finished circuit (\<open>qasm\<close>, \<open>depth\<close>, the time stamp) are left out.
\<close>

record stored_circuit =
  sc_id :: nat
  sc_name :: string
  sc_circuit :: "op list"
  sc_num_qubits :: nat
  sc_gates :: "string list"

record circuit_info =
  ci_id :: nat
  ci_name :: string
  ci_num_qubits :: nat
  ci_gates :: "string list"

record lab =
  circuits :: "(nat, stored_circuit) dict"

definition create_quantum_circuit ::
  "lab \<Rightarrow> string \<Rightarrow> nat \<Rightarrow> string list \<Rightarrow> py_error + (lab \<times> circuit_info)" where
  "create_quantum_circuit self name num_qubits gates =
     (case bind_loop num_qubits 0 gates [] of
        Inl e \<Rightarrow> Inl e
      | Inr circuit \<Rightarrow>
          (let circuit = circuit @ [Measure [0..<num_qubits]];
               circuit_id = length (circuits self) + 1;
               self = self\<lparr>circuits := dict_set circuit_id
                  \<lparr>sc_id = circuit_id, sc_name = name, sc_circuit = circuit,
                   sc_num_qubits = num_qubits, sc_gates = gates\<rparr> (circuits self)\<rparr>
           in Inr (self, \<lparr>ci_id = circuit_id, ci_name = name,
                          ci_num_qubits = num_qubits, ci_gates = gates\<rparr>)))"


subsection \<open>\<open>build_quantum_circuit\<close> (quantum algorithms, Qiskit)\<close>

text \<open>
  A register of three qubits; every token is compared as it is written, the single-qubit
  gates go to qubit 0 and \<open>CNOT\<close> to the pair (0, 1).
\<close>

definition build_token :: "string \<Rightarrow> op list" where
  "build_token gate =
     (if gate = ''H'' then [Apply (H_gate 0)]
      else if gate = ''X'' then [Apply (X_gate 0)]
      else if gate = ''Y'' then [Apply (Y_gate 0)]
      else if gate = ''Z'' then [Apply (Z_gate 0)]
      else if gate = ''CNOT'' then [Apply (CNOT_gate 0 1)]
      else if gate = ''RZ'' then [Apply (RZ_gate (pi / 4) 0)]
      else if gate = ''RY'' then [Apply (RY_gate (pi / 4) 0)]
      else if gate = ''Measure'' then [Measure [0, 1, 2]]
      else [])"

fun build_quantum_circuit_loop :: "string list \<Rightarrow> op list \<Rightarrow> op list" where
  "build_quantum_circuit_loop [] qc = qc"
| "build_quantum_circuit_loop (gate # gates) qc = build_quantum_circuit_loop gates (qc @ build_token gate)"

definition build_quantum_circuit :: "string list \<Rightarrow> op list" where
  "build_quantum_circuit gates = build_quantum_circuit_loop gates []"


subsection \<open>The default binding policy, as the specification words it\<close>

text \<open>
  ``Single-qubit gate tokens bind to \<open>index mod n\<close> in token order; a CNOT token binds
  control = \<open>index mod n\<close>, target = \<open>(index mod n + 1) mod n\<close>.''  The single-qubit
  tokens are those that \<open>create_quantum_circuit\<close> knows, read without regard to case.
\<close>

definition default_binding :: "nat \<Rightarrow> nat \<Rightarrow> string \<Rightarrow> op list" where
  "default_binding n i tok =
     (if upper tok = ''H'' then [Apply (H_gate (i mod n))]
      else if upper tok = ''X'' then [Apply (X_gate (i mod n))]
      else if upper tok = ''Y'' then [Apply (Y_gate (i mod n))]
      else if upper tok = ''Z'' then [Apply (Z_gate (i mod n))]
      else if upper tok = ''RZ'' then [Apply (RZ_gate (pi / 4) (i mod n))]
      else if upper tok = ''CNOT'' then [Apply (CNOT_gate (i mod n) ((i mod n + 1) mod n))]
      else [])"

definition policy_circuit :: "nat \<Rightarrow> string list \<Rightarrow> op list" where
  "policy_circuit n gates = concat (map (\<lambda>i. default_binding n i (gates ! i)) [0..<length gates])"



section \<open>\<open>shors_algorithm\<close> (quantum algorithms, Qiskit)\<close>









section \<open>Histograms of measurement samples\<close>

text \<open>
  A measured bit is the integer 0 or 1, and \<open>str\<close> of it is one character.  No other
  value reaches \<open>str_bit\<close>: the simulated states hold 0 and 1 only.
\<close>

definition str_bit :: "int \<Rightarrow> string" where
  "str_bit b = (if b = 1 then ''1'' else ''0'')"

definition join_bits :: "int list \<Rightarrow> string" where
  "join_bits bits = concat (map str_bit bits)"

text \<open>\<open>counts[bitstring] = counts.get(bitstring, 0) + 1\<close>.\<close>

definition count_up :: "string \<Rightarrow> (string, nat) dict \<Rightarrow> (string, nat) dict" where
  "count_up bitstring counts = dict_set bitstring (dict_get counts bitstring 0 + 1) counts"

text \<open>
  The loop \<open>for measurement in measurements\<close> of the Cirq module's \<open>execute_circuit\<close>
  (and of \<open>create_bell_state\<close> and \<open>quantum_walk\<close>), over the rows that
  \<open>simulator.run\<close> returned, one row for each repetition.
\<close>

fun count_measurements :: "int list list \<Rightarrow> (string, nat) dict \<Rightarrow> (string, nat) dict" where
  "count_measurements [] counts = counts"
| "count_measurements (measurement # measurements) counts =
     count_measurements measurements (count_up (join_bits measurement) counts)"

subsection \<open>\<open>execute_circuit\<close> of the Q# module\<close>

text \<open>
  The module simulates a shot on a list of classical bits.  \<open>random.choice([0, 1])\<close> is
  the next draw of a source \<open>rng\<close>, read at a position that is threaded through the
  calls.  The inner loop, over the tokens of the stored gate list:
\<close>

fun simulate_gates ::
  "nat \<Rightarrow> nat \<Rightarrow> string list \<Rightarrow> int list \<Rightarrow> (nat \<Rightarrow> int) \<Rightarrow> nat \<Rightarrow> py_error + (int list \<times> nat)" where
  "simulate_gates num_qubits i [] state rng pos = Inr (state, pos)"
| "simulate_gates num_qubits i (gate # gates) state rng pos =
     (if num_qubits = 0 then Inl ZeroDivisionError
      else let qubit_idx = i mod num_qubits in
        if upper gate = ''H'' then
          simulate_gates num_qubits (Suc i) gates (state[qubit_idx := rng pos]) rng (Suc pos)
        else if upper gate = ''X'' then
          simulate_gates num_qubits (Suc i) gates (state[qubit_idx := 1 - state ! qubit_idx]) rng pos
        else if upper gate = ''CNOT'' \<and> num_qubits > 1 then
          (let control = qubit_idx; target = (qubit_idx + 1) mod num_qubits
           in if state ! control = 1
              then simulate_gates num_qubits (Suc i) gates (state[target := 1 - state ! target]) rng pos
              else simulate_gates num_qubits (Suc i) gates state rng pos)
        else simulate_gates num_qubits (Suc i) gates state rng pos)"

text \<open>
  The outer loop \<open>for _ in range(shots)\<close>; \<open>range\<close> of a negative number is empty, so
  it runs \<open>nat shots\<close> times.
\<close>

fun shots_loop ::
  "nat \<Rightarrow> nat \<Rightarrow> string list \<Rightarrow> (nat \<Rightarrow> int) \<Rightarrow> nat \<Rightarrow> (string, nat) dict
     \<Rightarrow> py_error + ((string, nat) dict \<times> nat)" where
  "shots_loop 0 num_qubits gates rng pos counts = Inr (counts, pos)"
| "shots_loop (Suc k) num_qubits gates rng pos counts =
     (case simulate_gates num_qubits 0 gates (replicate num_qubits 0) rng pos of
        Inl e \<Rightarrow> Inl e
      | Inr (state, pos') \<Rightarrow>
          shots_loop k num_qubits gates rng pos' (count_up (join_bits state) counts))"

text \<open>
  The result, without the mock state vector (random numbers, normalised) and the
  \<open>probabilities\<close> (the counts divided by \<open>shots\<close>, in floating point).
\<close>

record execution =
  ex_circuit_id :: nat
  ex_shots :: int
  ex_counts :: "(string, nat) dict"

definition execute_circuit :: "lab \<Rightarrow> nat \<Rightarrow> int \<Rightarrow> (nat \<Rightarrow> int) \<Rightarrow> py_error + execution" where
  "execute_circuit self circuit_id shots rng =
     (case map_of (circuits self) circuit_id of
        None \<Rightarrow> Inl ValueError
      | Some circuit_data \<Rightarrow>
          (case shots_loop (nat shots) (sc_num_qubits circuit_data) (sc_gates circuit_data) rng 0 [] of
             Inl e \<Rightarrow> Inl e
           | Inr (counts, pos) \<Rightarrow>
               Inr \<lparr>ex_circuit_id = circuit_id, ex_shots = shots, ex_counts = counts\<rparr>))"

text \<open>
  \<open>execute_circuit\<close> of the Cirq module.  \<open>measurements\<close> is what
  \<open>simulator.run(circuit, repetitions=repetitions)\<close> returned under the key \<open>result\<close>: the
  simulator is not part of the sources, and its contract is one row for each repetition.
  The state vector and the \<open>probabilities\<close> are left out as above.
\<close>

definition cirq_execute_circuit ::
  "lab \<Rightarrow> nat \<Rightarrow> int \<Rightarrow> int list list \<Rightarrow> py_error + execution" where
  "cirq_execute_circuit self circuit_id repetitions measurements =
     (case map_of (circuits self) circuit_id of
        None \<Rightarrow> Inl ValueError
      | Some circuit_data \<Rightarrow>
          Inr \<lparr>ex_circuit_id = circuit_id, ex_shots = repetitions,
               ex_counts = count_measurements measurements []\<rparr>)"

definition example_rng :: "nat \<Rightarrow> int" where
  "example_rng k = int (k mod 2)"

text \<open>The sum of the counts, and what makes an association list a histogram.\<close>

definition total :: "('k, nat) dict \<Rightarrow> nat" where
  "total counts = sum_list (map snd counts)"

definition histogram :: "(string, nat) dict \<Rightarrow> bool" where
  "histogram counts = (distinct (map fst counts) \<and> (\<forall>c \<in> snd ` set counts. 0 < c))"

subsection \<open>The most likely outcome\<close>

text \<open>
  \<open>max(counts, key=counts.get)\<close>: Python's \<open>max\<close> walks the keys in the order of the
  dict and replaces its candidate only by a key whose count is strictly greater; on an
  empty dict it raises \<open>ValueError\<close>.  Every key it asks \<open>counts.get\<close> for is present,
  so the default of \<open>dict_get\<close> is never used.
\<close>

fun max_loop :: "('k \<Rightarrow> nat) \<Rightarrow> 'k list \<Rightarrow> 'k \<Rightarrow> 'k" where
  "max_loop key [] best = best"
| "max_loop key (x # xs) best =
     (if key best < key x then max_loop key xs x else max_loop key xs best)"

definition py_max :: "'k list \<Rightarrow> ('k \<Rightarrow> nat) \<Rightarrow> py_error + 'k" where
  "py_max xs key = (case xs of [] \<Rightarrow> Inl ValueError | x # rest \<Rightarrow> Inr (max_loop key rest x))"

definition most_likely :: "(string, nat) dict \<Rightarrow> py_error + string" where
  "most_likely counts = py_max (map fst counts) (\<lambda>k. dict_get counts k 0)"

text \<open>
  The analysis of \<open>quantum_walk\<close> (Cirq, part 000) from the rows of the 1000 repetitions
  on: the coin qubit, first in each row, is dropped (\<open>measurement[1:]\<close>).
\<close>

definition position_rows :: "int list list \<Rightarrow> int list list" where
  "position_rows measurements = map tl measurements"

record walk_result =
  position_distribution :: "(string, nat) dict"
  most_likely_position :: string

definition quantum_walk_analysis :: "int list list \<Rightarrow> py_error + walk_result" where
  "quantum_walk_analysis measurements =
     (let position_counts = count_measurements (position_rows measurements) []
      in case most_likely position_counts of
           Inl e \<Rightarrow> Inl e
         | Inr k \<Rightarrow> Inr \<lparr>position_distribution = position_counts, most_likely_position = k\<rparr>)"

text \<open>The distinct elements of a list, in the order of their first occurrence.\<close>

fun first_seen :: "'a list \<Rightarrow> 'a list" where
  "first_seen [] = []"
| "first_seen (x # xs) = x # filter (\<lambda>y. y \<noteq> x) (first_seen xs)"


section \<open>\<open>QuantumInterface\<close> (quantum interface)\<close>

text \<open>
  \<open>__init__\<close> chooses the backend from the two flags that the imports at the top of the
  module set.
\<close>

definition select_backend :: "bool \<Rightarrow> bool \<Rightarrow> string" where
  "select_backend QISKIT_AVAILABLE CIRQ_AVAILABLE =
     (if QISKIT_AVAILABLE then ''qiskit'' else if CIRQ_AVAILABLE then ''cirq'' else ''fallback'')"







section \<open>The quantum random generators\<close>

text \<open>
  \<open>int(binary, 2)\<close> on a string of binary digits, most significant digit first; the empty
  string raises \<open>ValueError\<close>.  Python accepts more (blanks around the digits, a sign, a
  prefix \<open>0b\<close>, underscores); those strings are outside this model, which gives
  \<open>ValueError\<close> for them, and the generators never pass one when the measured key is a
  string of binary digits.
\<close>

definition is_bitstring :: "string \<Rightarrow> bool" where
  "is_bitstring s = (\<forall>c \<in> set s. c = CHR ''0'' \<or> c = CHR ''1'')"

definition bit_of_char :: "char \<Rightarrow> int" where
  "bit_of_char c = (if c = CHR ''1'' then 1 else 0)"

definition py_int_base2 :: "string \<Rightarrow> py_error + int" where
  "py_int_base2 s =
     (if s \<noteq> [] \<and> is_bitstring s then Inr (foldl (\<lambda>a c. 2 * a + bit_of_char c) 0 s)
      else Inl ValueError)"















section \<open>The amplitude register and the gates\<close>

text \<open>
  Modelled from the spec: the action of the gates on the amplitude register (section
  4.1), which the sources leave to the simulators of Qiskit and Cirq.  A state gives the
  amplitude of every basis label; a label is a list of bits, the bit at position \<open>i\<close>
  being the state of qubit \<open>i\<close>.  A gate acts on the qubits it names and as the identity
  on the others.
\<close>

type_synonym state = "bool list \<Rightarrow> complex"

fun apply_gate :: "gate \<Rightarrow> state \<Rightarrow> state" where
  "apply_gate (H_gate q) v =
     (\<lambda>bs. if bs ! q then (v (bs[q := False]) - v bs) / complex_of_real (sqrt 2)
           else (v bs + v (bs[q := True])) / complex_of_real (sqrt 2))"
| "apply_gate (X_gate q) v = (\<lambda>bs. v (bs[q := \<not> bs ! q]))"
| "apply_gate (Y_gate q) v =
     (\<lambda>bs. if bs ! q then \<i> * v (bs[q := False]) else - \<i> * v (bs[q := True]))"
| "apply_gate (Z_gate q) v = (\<lambda>bs. if bs ! q then - v bs else v bs)"
| "apply_gate (CNOT_gate c t) v = (\<lambda>bs. if bs ! c then v (bs[t := \<not> bs ! t]) else v bs)"
| "apply_gate (RZ_gate \<theta> q) v = (\<lambda>bs. (if bs ! q then cis (\<theta> / 2) else cis (- \<theta> / 2)) * v bs)"
| "apply_gate (RY_gate \<theta> q) v =
     (\<lambda>bs. if bs ! q
           then complex_of_real (sin (\<theta> / 2)) * v (bs[q := False]) + complex_of_real (cos (\<theta> / 2)) * v bs
           else complex_of_real (cos (\<theta> / 2)) * v bs - complex_of_real (sin (\<theta> / 2)) * v (bs[q := True]))"
| "apply_gate (CPhase \<theta> a b) v = (\<lambda>bs. if bs ! a \<and> bs ! b then cis \<theta> * v bs else v bs)"
| "apply_gate (SWAP_gate a b) v = (\<lambda>bs. v (bs[a := bs ! b, b := bs ! a]))"

fun run :: "gate list \<Rightarrow> state \<Rightarrow> state" where
  "run [] v = v"
| "run (g # gs) v = run gs (apply_gate g v)"

definition basis_state :: "bool list \<Rightarrow> state" where
  "basis_state b = (\<lambda>bs. if bs = b then 1 else 0)"

text \<open>Two states agree on the register of \<open>n\<close> qubits.\<close>

definition eq_on :: "nat \<Rightarrow> state \<Rightarrow> state \<Rightarrow> bool" where
  "eq_on n v w = (\<forall>bs. length bs = n \<longrightarrow> v bs = w bs)"


section \<open>The quantum Fourier transform\<close>

text \<open>
  \<open>_apply_qft\<close> of the Cirq module, on the qubits 0, ..., \<open>num_qubits - 1\<close>:
  \<open>cirq.CZ(a, b) ** t\<close> multiplies the amplitude by \<open>exp(i \<pi> t)\<close> where both qubits are 1.
\<close>

definition apply_qft :: "nat \<Rightarrow> gate list" where
  "apply_qft num_qubits =
     concat (map (\<lambda>i. H_gate i # map (\<lambda>j. CPhase (pi * (1 / 2 ^ (j - i))) j i) [i + 1..<num_qubits])
                 [0..<num_qubits])
     @ map (\<lambda>i. SWAP_gate i (num_qubits - 1 - i)) [0..<num_qubits div 2]"

text \<open>
  \<open>inverse_qft\<close> of \<open>quantum_phase_estimation\<close> (Cirq, part 000), with
  \<open>cirq.CZPowGate(exponent=t)\<close> as above.
\<close>

definition inverse_qft :: "nat \<Rightarrow> gate list" where
  "inverse_qft n =
     map (\<lambda>i. SWAP_gate i (n - 1 - i)) [0..<n div 2]
     @ concat (map (\<lambda>i. map (\<lambda>j. CPhase (pi * (- 1 / 2 ^ (i - j))) j i) [0..<i] @ [H_gate i])
                   [0..<n])"

text \<open>
  \<open>quantum_fourier_transform\<close> of the Qiskit laboratory (part 000): the recursive
  \<open>qft_rotations\<close>, which starts at the qubit of highest index, and the swaps.
\<close>

fun qft_rotations :: "nat \<Rightarrow> gate list" where
  "qft_rotations 0 = []"
| "qft_rotations (Suc n) =
     H_gate n # map (\<lambda>qubit. CPhase (pi / 2 ^ (n - qubit)) qubit n) [0..<n] @ qft_rotations n"

definition quantum_fourier_transform :: "nat \<Rightarrow> gate list" where
  "quantum_fourier_transform n_qubits =
     qft_rotations n_qubits
     @ map (\<lambda>qubit. SWAP_gate qubit (n_qubits - qubit - 1)) [0..<n_qubits div 2]"

text \<open>
  For the proofs: the swaps and the rotations of \<open>inverse_qft\<close> by themselves, and the
  label that the first \<open>k\<close> swaps read.
\<close>

definition partial_rev :: "nat \<Rightarrow> bool list \<Rightarrow> bool list" where
  "partial_rev k bs =
     map (\<lambda>p. if p < k \<or> length bs - k \<le> p then bs ! (length bs - 1 - p) else bs ! p)
         [0..<length bs]"

definition swap_gates :: "nat \<Rightarrow> nat \<Rightarrow> gate list" where
  "swap_gates n k = map (\<lambda>i. SWAP_gate i (n - 1 - i)) [0..<k]"

definition inverse_rotations :: "nat \<Rightarrow> gate list" where
  "inverse_rotations n =
     concat (map (\<lambda>i. map (\<lambda>j. CPhase (pi * (- 1 / 2 ^ (i - j))) j i) [0..<i] @ [H_gate i])
                 [0..<n])"

lemma length_partial_rev: "length (partial_rev k bs) = length bs"
  by (simp add: partial_rev_def)


section \<open>BB84 key distribution\<close>

text \<open>
  The random draws of one trial: the three draws of \<open>random.choice([0, 1])\<close> (or
  \<open>random.randint(0, 1)\<close>) and the draw of the simulator for its one shot.
\<close>

record trial =
  alice_bit :: int
  alice_basis :: int
  bob_basis :: int
  sample :: real

text \<open>
  Modelled from the spec: one sample of the measurement of a single qubit under the Born
  rule (section 4.3), which the sources leave to the simulators.  With \<open>u\<close> drawn
  uniformly from \<open>[0, 1)\<close>, the outcome is 0 with the probability \<open>|amplitude of 0|\<^sup>2\<close>.
\<close>

definition measure_qubit :: "state \<Rightarrow> real \<Rightarrow> int" where
  "measure_qubit v u = (if u < (cmod (v [False]))\<^sup>2 then 0 else 1)"

text \<open>
  The circuit of one trial, the same in every BB84 of the sources: \<open>X\<close> if Alice's bit
  is 1, \<open>H\<close> if her basis is 1, \<open>H\<close> if Bob's basis is 1; then the measurement, whose
  result is \<open>bob_measures\<close>.
\<close>

definition bb84_circuit :: "int \<Rightarrow> int \<Rightarrow> int \<Rightarrow> gate list" where
  "bb84_circuit a_bit a_basis b_basis =
     (if a_bit = 1 then [X_gate 0] else [])
     @ (if a_basis = 1 then [H_gate 0] else [])
     @ (if b_basis = 1 then [H_gate 0] else [])"

definition bob_measures :: "trial \<Rightarrow> int" where
  "bob_measures t =
     measure_qubit (run (bb84_circuit (alice_bit t) (alice_basis t) (bob_basis t))
                        (basis_state [False])) (sample t)"

text \<open>
  \<open>bb84_key_distribution\<close> of the laboratories of part 000 (Cirq and Qiskit): the loop
  \<open>for _ in range(key_length * 2)\<close> with its \<open>break\<close>, then the error rate in per cent.
  \<open>draws k\<close> holds the draws of the iteration \<open>k\<close>.
\<close>

fun bb84_loop ::
  "nat \<Rightarrow> nat \<Rightarrow> int \<Rightarrow> (nat \<Rightarrow> trial) \<Rightarrow> bool list \<Rightarrow> int \<Rightarrow> bool list \<times> int" where
  "bb84_loop 0 k key_length draws shared_key errors = (shared_key, errors)"
| "bb84_loop (Suc r) k key_length draws shared_key errors =
     (if alice_basis (draws k) = bob_basis (draws k) then
        (if key_length \<le> int (length (shared_key @ [alice_bit (draws k) \<noteq> 0]))
         then (shared_key @ [alice_bit (draws k) \<noteq> 0],
               if alice_bit (draws k) \<noteq> bob_measures (draws k) then errors + 1 else errors)
         else bb84_loop r (Suc k) key_length draws (shared_key @ [alice_bit (draws k) \<noteq> 0])
                (if alice_bit (draws k) \<noteq> bob_measures (draws k) then errors + 1 else errors))
      else bb84_loop r (Suc k) key_length draws shared_key errors)"

definition bb84_key_distribution :: "int \<Rightarrow> (nat \<Rightarrow> trial) \<Rightarrow> bool list \<times> real" where
  "bb84_key_distribution key_length draws =
     (case bb84_loop (nat (key_length * 2)) 0 key_length draws [] 0 of
        (shared_key, errors) \<Rightarrow>
          (shared_key,
           if shared_key \<noteq> [] then (real_of_int errors / real (length shared_key)) * 100 else 0))"

text \<open>What the random sources can give: bits, and a sample in \<open>[0, 1)\<close>.\<close>

definition valid_trial :: "trial \<Rightarrow> bool" where
  "valid_trial t =
     ((alice_bit t = 0 \<or> alice_bit t = 1) \<and> (alice_basis t = 0 \<or> alice_basis t = 1)
      \<and> (bob_basis t = 0 \<or> bob_basis t = 1) \<and> 0 \<le> sample t \<and> sample t < 1)"

text \<open>
  \<open>bb84_key_distribution\<close> of quantum implementations (Qiskit): the three lists of
  \<open>2 * key_length\<close> draws, Bob's measurements (which nothing reads afterwards), the sifted
  bits, and the error rate, which is the draw \<open>u\<close> of \<open>random.uniform(0, 0.05)\<close>.  The
  entry \<open>key_hex\<close> is computed from \<open>int(key_binary, 2)\<close>, which raises \<open>ValueError\<close> on
  the empty key; its text, the identifier and the \<open>efficiency\<close> are left out of the
  result.
\<close>

record key_data =
  kd_key_length :: nat
  kd_key_binary :: string
  kd_error_rate :: real
  kd_security_level :: string

definition lab_bb84_key_distribution ::
  "int \<Rightarrow> (nat \<Rightarrow> trial) \<Rightarrow> real \<Rightarrow> py_error + key_data" where
  "lab_bb84_key_distribution key_length draws u =
     (let n = nat (key_length * 2);
          alice_bits = map (\<lambda>i. alice_bit (draws i)) [0..<n];
          alice_bases = map (\<lambda>i. alice_basis (draws i)) [0..<n];
          bob_bases = map (\<lambda>i. bob_basis (draws i)) [0..<n];
          bob_measurements = map (\<lambda>i. bob_measures (draws i)) [0..<length alice_bits];
          shared_key_bits =
            map (\<lambda>i. alice_bits ! i)
                (filter (\<lambda>i. alice_bases ! i = bob_bases ! i) [0..<length alice_bits]);
          final_key =
            (if key_length \<le> int (length shared_key_bits)
             then take (nat key_length) shared_key_bits else shared_key_bits);
          error_rate = u
      in case py_int_base2 (join_bits final_key) of
           Inl e \<Rightarrow> Inl e
         | Inr key_value \<Rightarrow>
             Inr \<lparr>kd_key_length = length final_key, kd_key_binary = join_bits final_key,
                  kd_error_rate = error_rate,
                  kd_security_level = (if error_rate < 11 / 100 then ''HIGH'' else ''COMPROMISED'')\<rparr>)"

definition example_trial :: "nat \<Rightarrow> trial" where
  "example_trial k =
     \<lparr>alice_bit = int (k mod 2), alice_basis = int (k div 2 mod 2), bob_basis = 1,
      sample = 1 / 2\<rparr>"


section \<open>Quantum teleportation\<close>

text \<open>
  The circuit of \<open>quantum_teleportation\<close> (Cirq, part 000), with the message qubit as
  qubit 0, Alice's qubit of the entangled pair as qubit 1 and Bob's as qubit 2.  Where
  the source has the comment ``Bob's correction (simplified - in practice would be
  conditional)'' it appends the measurement of Bob's qubit and nothing else.
\<close>

definition quantum_teleportation_circuit :: "op list" where
  "quantum_teleportation_circuit =
     [Apply (X_gate 0),
      Apply (H_gate 1), Apply (CNOT_gate 1 2),
      Apply (CNOT_gate 0 1), Apply (H_gate 0),
      Measure [0, 1],
      Measure [2]]"

text \<open>
  The circuit of \<open>cirq_quantum_teleportation\<close> (quantum app, quantum circuits): the state
  to teleport is \<open>H|0\<rangle>\<close>; the measurements have one key each.
\<close>

definition cirq_quantum_teleportation_circuit :: "op list" where
  "cirq_quantum_teleportation_circuit =
     [Apply (H_gate 0),
      Apply (H_gate 1), Apply (CNOT_gate 1 2),
      Apply (CNOT_gate 0 1), Apply (H_gate 0), Measure [0], Measure [1],
      Measure [2]]"

text \<open>
  The gates of a circuit, those that come after its first measurement, and the state
  before the measurements when no gate follows one.
\<close>

fun gates_of :: "op list \<Rightarrow> gate list" where
  "gates_of [] = []"
| "gates_of (Apply g # ops) = g # gates_of ops"
| "gates_of (Measure qs # ops) = gates_of ops"

fun gates_after_measurement :: "op list \<Rightarrow> gate list" where
  "gates_after_measurement [] = []"
| "gates_after_measurement (Apply g # ops) = gates_after_measurement ops"
| "gates_after_measurement (Measure qs # ops) = gates_of ops"

definition final_state :: "nat \<Rightarrow> op list \<Rightarrow> state" where
  "final_state n ops = run (gates_of ops) (basis_state (replicate n False))"

text \<open>
  Modelled from the spec: the Born rule (section 4.3), which the sources leave to the
  simulators.  The probability of a basis label is the squared magnitude of its
  amplitude; the probability of a set of labels of \<open>n\<close> qubits is the sum over its
  members.
\<close>

definition probability :: "state \<Rightarrow> bool list \<Rightarrow> real" where
  "probability v bs = (cmod (v bs))\<^sup>2"

definition probability_that :: "nat \<Rightarrow> state \<Rightarrow> (bool list \<Rightarrow> bool) \<Rightarrow> real" where
  "probability_that n v P = sum_list (map (probability v) (filter P (List.n_lists n [False, True])))"

definition bob_reads_one :: "bool list \<Rightarrow> bool" where
  "bob_reads_one bs = bs ! 2"

text \<open>
  What \<open>quantum_teleportation\<close> computes from the rows of the 100 repetitions, each with
  Alice's two bits and the one bit of Bob (\<open>bob[0]\<close> is the first entry of a row that has
  one): the share of the rows in which Bob read 1, the state of the message.  The two
  lists of rows that the result repeats are left out.
\<close>

record teleportation_result =
  success_rate :: real
  total_attempts :: nat

definition quantum_teleportation_result :: "(int list \<times> int list) list \<Rightarrow> teleportation_result" where
  "quantum_teleportation_result rows =
     (let successes = length (filter (\<lambda>(alice, bob). take 1 bob = [1]) rows)
      in \<lparr>success_rate = real successes / 100, total_attempts = 100\<rparr>)"

section \<open>Circuit construction: unknown tokens and the binding policy\<close>

lemma bind_loop_eq:
  "0 < n \<Longrightarrow>
   bind_loop n i gates circuit =
     Inr (circuit @ concat (map (\<lambda>k. bind_token n (i + k) (gates ! k)) [0..<length gates]))"
proof (induction gates arbitrary: i circuit)
  case Nil
  then show ?case by simp
next
  case (Cons g gs)
  have split: "[0..<Suc (length gs)] = 0 # map Suc [0..<length gs]"
    by (simp add: upt_conv_Cons map_Suc_upt del: upt_Suc)
  show ?case
    using Cons.prems by (simp add: Cons.IH split comp_def del: upt_Suc)
qed

lemma build_quantum_circuit_loop_eq:
  "build_quantum_circuit_loop gates qc = qc @ concat (map build_token gates)"
  by (induction gates arbitrary: qc) simp_all

text \<open>
  Claim C2, as the code has it.  No branch of \<open>create_quantum_circuit\<close> raises for a
  token: on a register of at least one qubit the construction always succeeds, stores the
  circuit under the next identifier and returns that identifier, and a token outside
  \<open>H\<close>, \<open>X\<close>, \<open>Y\<close>, \<open>Z\<close>, \<open>CNOT\<close>, \<open>RZ\<close> (read without regard to case) adds no operation.
\<close>

theorem create_quantum_circuit_skips_unknown_token:
  assumes "0 < num_qubits"
  shows "create_quantum_circuit self name num_qubits gates =
     Inr (self\<lparr>circuits := dict_set (length (circuits self) + 1)
            \<lparr>sc_id = length (circuits self) + 1, sc_name = name,
             sc_circuit = concat (map (\<lambda>i. bind_token num_qubits i (gates ! i)) [0..<length gates])
                            @ [Measure [0..<num_qubits]],
             sc_num_qubits = num_qubits, sc_gates = gates\<rparr> (circuits self)\<rparr>,
          \<lparr>ci_id = length (circuits self) + 1, ci_name = name,
            ci_num_qubits = num_qubits, ci_gates = gates\<rparr>)
   \<and> (\<forall>i tok. upper tok \<notin> {''H'', ''X'', ''Y'', ''Z'', ''CNOT'', ''RZ''}
          \<longrightarrow> bind_token num_qubits i tok = [])"
  using assms by (simp add: create_quantum_circuit_def bind_loop_eq bind_token_def Let_def)

theorem create_quantum_circuit_skips_unknown_token_witness:
  "0 < (2::nat)
   \<and> create_quantum_circuit \<lparr>circuits = []\<rparr> ''x'' 2 [''h'', ''BOGUS''] =
       Inr (\<lparr>circuits = [(1, \<lparr>sc_id = 1, sc_name = ''x'',
                                sc_circuit = [Apply (H_gate 0), Measure [0, 1]],
                                sc_num_qubits = 2, sc_gates = [''h'', ''BOGUS'']\<rparr>)]\<rparr>,
            \<lparr>ci_id = 1, ci_name = ''x'', ci_num_qubits = 2, ci_gates = [''h'', ''BOGUS'']\<rparr>)
   \<and> upper ''BOGUS'' \<notin> {''H'', ''X'', ''Y'', ''Z'', ''CNOT'', ''RZ''}
   \<and> bind_token 2 1 ''BOGUS'' = []"
  using create_quantum_circuit_skips_unknown_token
          [of 2 "\<lparr>circuits = []\<rparr>" "''x''" "[''h'', ''BOGUS'']"]
  by (simp add: bind_token_def upper_def upper_char_def upt_rec)

text \<open>
  Claim C2 as stated fails: \<open>create_circuit("x", 2, ["BOGUS"])\<close> raises nothing.  It stores
  a circuit that holds the final measurement only and returns the identifier 1.
\<close>

theorem create_quantum_circuit_bogus_counterexample:
  "create_quantum_circuit \<lparr>circuits = []\<rparr> ''x'' 2 [''BOGUS''] =
     Inr (\<lparr>circuits = [(1, \<lparr>sc_id = 1, sc_name = ''x'', sc_circuit = [Measure [0, 1]],
                              sc_num_qubits = 2, sc_gates = [''BOGUS'']\<rparr>)]\<rparr>,
          \<lparr>ci_id = 1, ci_name = ''x'', ci_num_qubits = 2, ci_gates = [''BOGUS'']\<rparr>)"
  by (simp add: create_quantum_circuit_def bind_token_def upper_def upper_char_def upt_rec)

text \<open>
  Claim C5, as the code has it.  On \<open>n \<ge> 1\<close> qubits the loop of
  \<open>create_quantum_circuit\<close> binds the token at position \<open>i\<close> as the default policy says,
  but for \<open>CNOT\<close> on a single qubit, which the guard \<open>num_qubits > 1\<close> leaves out;
  \<open>build_quantum_circuit\<close> does not use the position at all: it appends
  \<open>build_token\<close> of each token, bound to qubit 0 (and \<open>CNOT\<close> to the pair 0, 1).
\<close>

theorem binding_policy_of_the_builders:
  assumes "0 < n"
  shows "bind_loop n 0 gates [] =
           Inr (concat (map (\<lambda>i. if n = 1 \<and> upper (gates ! i) = ''CNOT'' then []
                                   else default_binding n i (gates ! i)) [0..<length gates]))
       \<and> build_quantum_circuit gates = concat (map build_token gates)"
proof -
  have "bind_token n i t = (if n = 1 \<and> upper t = ''CNOT'' then [] else default_binding n i t)"
    for i t
    using assms by (auto simp: bind_token_def default_binding_def Let_def)
  then show ?thesis
    using assms by (simp add: bind_loop_eq build_quantum_circuit_def build_quantum_circuit_loop_eq)
qed

theorem binding_policy_of_the_builders_witness:
  "0 < (3::nat)
   \<and> bind_loop 3 0 [''H'', ''X'', ''CNOT'', ''cnot''] [] =
       Inr [Apply (H_gate 0), Apply (X_gate 1), Apply (CNOT_gate 2 0), Apply (CNOT_gate 0 1)]
   \<and> build_quantum_circuit [''H'', ''X'', ''CNOT'', ''cnot''] =
       [Apply (H_gate 0), Apply (X_gate 0), Apply (CNOT_gate 0 1)]"
  using binding_policy_of_the_builders [of 3 "[''H'', ''X'', ''CNOT'', ''cnot'']"]
  by (simp add: default_binding_def build_token_def upper_def upper_char_def upt_rec)

text \<open>
  Claim C5 as stated fails at two places: a \<open>CNOT\<close> token on one qubit is bound to nothing
  by \<open>create_quantum_circuit\<close>, where the policy binds it to control 0 and target 0; and
  \<open>build_quantum_circuit\<close> binds the second token of \<open>["X", "H"]\<close> to qubit 0, where the
  policy on its three qubits binds it to qubit 1.
\<close>

theorem binding_policy_counterexample:
  "bind_loop 1 0 [''CNOT''] [] = Inr []
   \<and> policy_circuit 1 [''CNOT''] = [Apply (CNOT_gate 0 0)]
   \<and> build_quantum_circuit [''X'', ''H''] = [Apply (X_gate 0), Apply (H_gate 0)]
   \<and> policy_circuit 3 [''X'', ''H''] = [Apply (X_gate 0), Apply (H_gate 1)]"
  by (simp add: bind_token_def policy_circuit_def default_binding_def upper_def upper_char_def
        build_quantum_circuit_def build_token_def upt_rec)


section \<open>Trial division in \<open>shors_algorithm\<close>\<close>











section \<open>Histograms\<close>

lemma total_dict_set_bump: "total (dict_set k (Suc (dict_get d k 0)) d) = Suc (total d)"
proof (induction d)
  case Nil
  show ?case by (simp add: total_def dict_get_def)
next
  case (Cons kv d)
  obtain k' v' where kv: "kv = (k', v')" by (cases kv)
  show ?case
  proof (cases "k' = k")
    case True
    then show ?thesis by (simp add: kv total_def dict_get_def)
  next
    case False
    with Cons.IH show ?thesis by (simp add: kv total_def dict_get_def)
  qed
qed

lemma keys_dict_set: "fst ` set (dict_set k v d) = insert k (fst ` set d)"
proof (induction d)
  case Nil
  show ?case by simp
next
  case (Cons kv d)
  obtain k' v' where kv: "kv = (k', v')" by (cases kv)
  show ?case using Cons.IH by (cases "k' = k") (auto simp: kv)
qed

lemma distinct_dict_set: "distinct (map fst d) \<Longrightarrow> distinct (map fst (dict_set k v d))"
proof (induction d)
  case Nil
  show ?case by simp
next
  case (Cons kv d)
  obtain k' v' where kv: "kv = (k', v')" by (cases kv)
  show ?case
  proof (cases "k' = k")
    case True
    then show ?thesis using Cons.prems by (simp add: kv)
  next
    case False
    from Cons have "distinct (map fst (dict_set k v d))" by simp
    moreover have "k' \<notin> fst ` set (dict_set k v d)"
      using Cons.prems False by (simp add: kv keys_dict_set)
    ultimately show ?thesis using False by (simp add: kv)
  qed
qed

lemma values_dict_set: "snd ` set (dict_set k v d) \<subseteq> insert v (snd ` set d)"
proof (induction d)
  case Nil
  show ?case by simp
next
  case (Cons kv d)
  obtain k' v' where kv: "kv = (k', v')" by (cases kv)
  show ?case using Cons.IH by (cases "k' = k") (auto simp: kv)
qed

lemma histogram_count_up:
  assumes h: "histogram d"
  shows "histogram (count_up s d)"
proof -
  have sub: "snd ` set (count_up s d) \<subseteq> insert (Suc (dict_get d s 0)) (snd ` set d)"
    unfolding count_up_def using values_dict_set [of s "Suc (dict_get d s 0)" d] by simp
  have pos: "0 < c" if "c \<in> snd ` set (count_up s d)" for c
  proof -
    from that sub have "c = Suc (dict_get d s 0) \<or> c \<in> snd ` set d" by (rule_tac insertE) auto
    then show ?thesis
    proof
      assume "c = Suc (dict_get d s 0)"
      then show ?thesis by simp
    next
      assume "c \<in> snd ` set d"
      with h show ?thesis unfolding histogram_def by (elim conjE bspec)
    qed
  qed
  have "distinct (map fst (count_up s d))"
    using h unfolding histogram_def count_up_def by (simp add: distinct_dict_set)
  with pos show ?thesis unfolding histogram_def by (intro conjI ballI)
qed

lemma total_count_up: "total (count_up s d) = Suc (total d)"
  by (simp add: count_up_def total_dict_set_bump)

lemma count_measurements_total:
  "total (count_measurements ms d) = total d + length ms"
  by (induction ms arbitrary: d) (simp_all add: total_count_up)

lemma count_measurements_histogram:
  "histogram d \<Longrightarrow> histogram (count_measurements ms d)"
  by (induction ms arbitrary: d) (simp_all add: histogram_count_up)

lemma shots_loop_total:
  "shots_loop k n gates rng pos d = Inr (d', pos') \<Longrightarrow> total d' = total d + k"
proof (induction k arbitrary: pos d)
  case 0
  then show ?case by simp
next
  case (Suc k)
  show ?case
  proof (cases "simulate_gates n 0 gates (replicate n 0) rng pos")
    case (Inl e)
    with Suc.prems show ?thesis by simp
  next
    case (Inr sp)
    obtain state pos1 where sp: "sp = (state, pos1)" by (cases sp)
    from Suc.prems Inr sp
    have "shots_loop k n gates rng pos1 (count_up (join_bits state) d) = Inr (d', pos')"
      by simp
    from Suc.IH [OF this] show ?thesis by (simp add: total_count_up)
  qed
qed

lemma shots_loop_histogram:
  "shots_loop k n gates rng pos d = Inr (d', pos') \<Longrightarrow> histogram d \<Longrightarrow> histogram d'"
proof (induction k arbitrary: pos d)
  case 0
  then show ?case by simp
next
  case (Suc k)
  show ?case
  proof (cases "simulate_gates n 0 gates (replicate n 0) rng pos")
    case (Inl e)
    with Suc.prems show ?thesis by simp
  next
    case (Inr sp)
    obtain state pos1 where sp: "sp = (state, pos1)" by (cases sp)
    from Suc.prems Inr sp
    have "shots_loop k n gates rng pos1 (count_up (join_bits state) d) = Inr (d', pos')"
      by simp
    from Suc.IH [OF this] Suc.prems(2) show ?thesis by (simp add: histogram_count_up)
  qed
qed

lemma histogram_empty: "histogram []"
  by (simp add: histogram_def)

lemma total_empty: "total [] = 0"
  by (simp add: total_def)

lemma count_replicate:
  "count_measurements (replicate n m @ ms) d =
     count_measurements ms ((count_up (join_bits m) ^^ n) d)"
  by (induction n arbitrary: d) (simp_all add: funpow_swap1)

text \<open>
  Claim C6.  Every execution with a requested shot count (a count, so not negative) that
  returns gives a histogram: distinct bitstrings with counts that are positive integers,
  and the counts sum to exactly the requested shot count.  This holds for the Q# module's
  \<open>execute_circuit\<close>, whatever the random draws are, and for the Cirq module's
  \<open>execute_circuit\<close> on the rows of the simulator, one for each repetition.
\<close>

theorem histogram_total_is_shot_count:
  "(0 \<le> shots \<and> execute_circuit self circuit_id shots rng = Inr r \<longrightarrow>
      ex_shots r = shots \<and> histogram (ex_counts r) \<and> int (total (ex_counts r)) = shots)
   \<and> (0 \<le> repetitions \<and> length measurements = nat repetitions
        \<and> cirq_execute_circuit self circuit_id repetitions measurements = Inr r' \<longrightarrow>
      ex_shots r' = repetitions \<and> histogram (ex_counts r')
        \<and> int (total (ex_counts r')) = repetitions)"
proof (rule conjI; rule impI)
  assume a: "0 \<le> shots \<and> execute_circuit self circuit_id shots rng = Inr r"
  then obtain cd :: stored_circuit and counts pos where
    run: "shots_loop (nat shots) (sc_num_qubits cd) (sc_gates cd) rng 0 [] = Inr (counts, pos)"
    and r: "ex_counts r = counts" and s: "ex_shots r = shots"
    by (auto simp: execute_circuit_def split: option.splits sum.splits)
  from shots_loop_histogram [OF run histogram_empty] r
  have h: "histogram (ex_counts r)" by simp
  from shots_loop_total [OF run] r a
  have "int (total (ex_counts r)) = shots" by (simp add: total_empty)
  with h s show "ex_shots r = shots \<and> histogram (ex_counts r) \<and> int (total (ex_counts r)) = shots"
    by simp
next
  assume a: "0 \<le> repetitions \<and> length measurements = nat repetitions
        \<and> cirq_execute_circuit self circuit_id repetitions measurements = Inr r'"
  then have r: "ex_counts r' = count_measurements measurements []"
    and s: "ex_shots r' = repetitions"
    by (auto simp: cirq_execute_circuit_def split: option.splits)
  have h: "histogram (ex_counts r')"
    unfolding r by (rule count_measurements_histogram [OF histogram_empty])
  have "total (ex_counts r') = length measurements"
    unfolding r by (simp add: count_measurements_total total_empty)
  with a have "int (total (ex_counts r')) = repetitions" by simp
  with h s show "ex_shots r' = repetitions \<and> histogram (ex_counts r')
        \<and> int (total (ex_counts r')) = repetitions"
    by simp
qed

theorem histogram_total_is_shot_count_witness:
  "(0::int) \<le> 3
   \<and> execute_circuit
     \<lparr>circuits = [(1, \<lparr>sc_id = 1, sc_name = ''x'', sc_circuit = [], sc_num_qubits = 2,
                          sc_gates = [''H'', ''CNOT'']\<rparr>)]\<rparr> 1 3 example_rng
     = Inr \<lparr>ex_circuit_id = 1, ex_shots = 3, ex_counts = [(''00'', 2), (''10'', 1)]\<rparr>
   \<and> histogram [(''00'', 2), (''10'', 1)]
   \<and> int (total [(''00'', 2), (''10'', 1)]) = 3
   \<and> length [ [0, 1], [1, 1], [0, 1 :: int]] = nat 3
   \<and> cirq_execute_circuit
     \<lparr>circuits = [(1, \<lparr>sc_id = 1, sc_name = ''x'', sc_circuit = [], sc_num_qubits = 2,
                          sc_gates = [''H'', ''CNOT'']\<rparr>)]\<rparr> 1 3 [ [0, 1], [1, 1], [0, 1]]
     = Inr \<lparr>ex_circuit_id = 1, ex_shots = 3, ex_counts = [(''01'', 2), (''11'', 1)]\<rparr>
   \<and> int (total [(''01'', 2), (''11'', 1)]) = 3"
proof -
  have e: "execute_circuit
     \<lparr>circuits = [(1, \<lparr>sc_id = 1, sc_name = ''x'', sc_circuit = [], sc_num_qubits = 2,
                          sc_gates = [''H'', ''CNOT'']\<rparr>)]\<rparr> 1 3 example_rng
     = Inr \<lparr>ex_circuit_id = 1, ex_shots = 3, ex_counts = [(''00'', 2), (''10'', 1)]\<rparr>"
    by code_simp
  have c: "cirq_execute_circuit
     \<lparr>circuits = [(1, \<lparr>sc_id = 1, sc_name = ''x'', sc_circuit = [], sc_num_qubits = 2,
                          sc_gates = [''H'', ''CNOT'']\<rparr>)]\<rparr> 1 3 [ [0, 1], [1, 1], [0, 1]]
     = Inr \<lparr>ex_circuit_id = 1, ex_shots = 3, ex_counts = [(''01'', 2), (''11'', 1)]\<rparr>"
    by code_simp
  from histogram_total_is_shot_count
    [of 3 "\<lparr>circuits = [(1, \<lparr>sc_id = 1, sc_name = ''x'', sc_circuit = [], sc_num_qubits = 2,
                          sc_gates = [''H'', ''CNOT'']\<rparr>)]\<rparr>" 1 example_rng
        "\<lparr>ex_circuit_id = 1, ex_shots = 3, ex_counts = [(''00'', 2), (''10'', 1)]\<rparr>"
        3 "[ [0, 1], [1, 1], [0, 1]]"
        "\<lparr>ex_circuit_id = 1, ex_shots = 3, ex_counts = [(''01'', 2), (''11'', 1)]\<rparr>"] e c
  show ?thesis by simp
qed

section \<open>The most likely outcome\<close>

lemma max_loop_first:
  "\<exists>before after. best # xs = before @ max_loop key xs best # after
      \<and> (\<forall>b \<in> set before. key b < key (max_loop key xs best))
      \<and> (\<forall>a \<in> set after. key a \<le> key (max_loop key xs best))"
proof (induction xs arbitrary: best)
  case Nil
  have "[best] = [] @ max_loop key [] best # []" by simp
  then show ?case by (intro exI [of _ "[]"]) simp
next
  case (Cons x xs)
  show ?case
  proof (cases "key best < key x")
    case True
    let ?r = "max_loop key xs x"
    have r: "max_loop key (x # xs) best = ?r" using True by simp
    from Cons.IH [of x] obtain before after where
      eq: "x # xs = before @ ?r # after"
      and lt: "\<forall>b \<in> set before. key b < key ?r"
      and le: "\<forall>a \<in> set after. key a \<le> key ?r" by blast
    have "x \<in> set (before @ ?r # after)" unfolding eq [symmetric] by simp
    then have "key x \<le> key ?r" using lt le by (auto intro: less_imp_le)
    with True have "key best < key ?r" by simp
    with lt have lt': "\<forall>b \<in> set (best # before). key b < key ?r" by simp
    have eq': "best # x # xs = (best # before) @ ?r # after" using eq by simp
    show ?thesis
      unfolding r
      by (rule exI [of _ "best # before"], rule exI [of _ after]) (intro conjI eq' lt' le)
  next
    case False
    let ?r = "max_loop key xs best"
    have r: "max_loop key (x # xs) best = ?r" using False by simp
    from Cons.IH [of best] obtain before after where
      eq: "best # xs = before @ ?r # after"
      and lt: "\<forall>b \<in> set before. key b < key ?r"
      and le: "\<forall>a \<in> set after. key a \<le> key ?r" by blast
    show ?thesis
    proof (cases before)
      case Nil
      with eq have rb: "?r = best" and xs: "xs = after" by auto
      have eq': "best # x # xs = [] @ ?r # (x # after)" using rb xs by simp
      have le': "\<forall>a \<in> set (x # after). key a \<le> key ?r" using le False rb by simp
      have lt': "\<forall>b \<in> set []. key b < key ?r" by simp
      show ?thesis
        unfolding r
        by (rule exI [of _ "[]"], rule exI [of _ "x # after"]) (intro conjI eq' lt' le')
    next
      case (Cons b before')
      with eq have b: "b = best" and xs: "xs = before' @ ?r # after" by auto
      have "key best < key ?r" using lt Cons b by simp
      with False have "key x < key ?r" by simp
      with lt Cons b have lt': "\<forall>c \<in> set (best # x # before'). key c < key ?r" by simp
      have eq': "best # x # xs = (best # x # before') @ ?r # after" using xs by simp
      show ?thesis
        unfolding r
        by (rule exI [of _ "best # x # before'"], rule exI [of _ after]) (intro conjI eq' lt' le)
    qed
  qed
qed

lemma key_list_dict_set:
  "map fst (dict_set k v d) = map fst d @ (if k \<in> fst ` set d then [] else [k])"
proof (induction d)
  case Nil
  show ?case by simp
next
  case (Cons kv d)
  obtain k' v' where kv: "kv = (k', v')" by (cases kv)
  show ?case
  proof (cases "k' = k")
    case True
    then show ?thesis by (simp add: kv)
  next
    case False
    then have "k \<in> fst ` set (kv # d) \<longleftrightarrow> k \<in> fst ` set d" by (auto simp: kv)
    with False Cons.IH show ?thesis by (simp add: kv)
  qed
qed

lemma keys_count_up:
  "map fst (count_up s d) = map fst d @ (if s \<in> fst ` set d then [] else [s])"
  unfolding count_up_def by (rule key_list_dict_set)

lemma keys_count_measurements:
  "map fst (count_measurements ms d) =
     map fst d @ filter (\<lambda>s. s \<notin> fst ` set d) (first_seen (map join_bits ms))"
proof (induction ms arbitrary: d)
  case Nil
  show ?case by simp
next
  case (Cons m ms)
  let ?s = "join_bits m"
  have keys: "fst ` set (count_up ?s d) = insert ?s (fst ` set d)"
    by (simp add: count_up_def keys_dict_set)
  have f: "filter (\<lambda>s. s \<notin> insert ?s (fst ` set d)) xs
        = filter (\<lambda>s. s \<notin> fst ` set d) (filter (\<lambda>y. y \<noteq> ?s) xs)" for xs
    by (induction xs) auto
  show ?case
    by (simp add: Cons.IH keys f keys_count_up)
qed

text \<open>
  Claim C7, as the code has it.  On a count map that is not empty, the most likely outcome
  is the first key, in the insertion order of the map, whose count is the maximum: the
  keys before it have smaller counts, the keys after it have counts that are not
  greater.  The insertion order is the order in which the outcomes were first sampled
  (\<open>keys_count_measurements\<close>).
\<close>

theorem most_likely_is_first_maximum:
  assumes "counts \<noteq> []"
  shows "\<exists>k before after. most_likely counts = Inr k
      \<and> map fst counts = before @ k # after
      \<and> (\<forall>b \<in> set before. dict_get counts b 0 < dict_get counts k 0)
      \<and> (\<forall>a \<in> set after. dict_get counts a 0 \<le> dict_get counts k 0)"
proof -
  from assms obtain kv rest where c: "counts = kv # rest" by (cases counts) auto
  define key where "key = (\<lambda>k. dict_get counts k 0)"
  define r where "r = max_loop key (map fst rest) (fst kv)"
  from max_loop_first [of "fst kv" "map fst rest" key]
  obtain before after where
    eq: "fst kv # map fst rest = before @ r # after"
    and lt: "\<forall>b \<in> set before. key b < key r"
    and le: "\<forall>a \<in> set after. key a \<le> key r"
    unfolding r_def by blast
  have ml: "most_likely counts = Inr r"
    by (simp add: most_likely_def py_max_def c r_def key_def)
  have keys: "map fst counts = before @ r # after" using eq by (simp add: c)
  show ?thesis
    by (rule exI [of _ r], rule exI [of _ before], rule exI [of _ after])
       (intro conjI ml keys lt [unfolded key_def] le [unfolded key_def])
qed

theorem most_likely_is_first_maximum_witness:
  "[(''10'', 2 :: nat), (''01'', 2), (''11'', 1)] \<noteq> []
   \<and> most_likely [(''10'', 2 :: nat), (''01'', 2), (''11'', 1)] = Inr ''10''
   \<and> map fst [(''10'', 2 :: nat), (''01'', 2), (''11'', 1)] = [] @ ''10'' # [''01'', ''11'']
   \<and> dict_get [(''10'', 2 :: nat), (''01'', 2), (''11'', 1)] ''01'' 0 = 2
   \<and> dict_get [(''10'', 2 :: nat), (''01'', 2), (''11'', 1)] ''10'' 0 = 2"
proof -
  have ne: "[(''10'', 2 :: nat), (''01'', 2), (''11'', 1)] \<noteq> []" by simp
  have ml: "most_likely [(''10'', 2 :: nat), (''01'', 2), (''11'', 1)] = Inr ''10''"
    by code_simp
  from most_likely_is_first_maximum [OF ne] ne ml show ?thesis
    by (simp add: dict_get_def)
qed

text \<open>
  Claim C7 as stated fails on a tie.  \<open>quantum_walk(2, 2)\<close> ends in the state
  \<open>(|0,01\<rangle> + |1,10\<rangle>) / \<surd>2\<close>, so each of its 1000 rows is \<open>[0, 0, 1]\<close> or \<open>[1, 1, 0]\<close>.
  When 500 rows of each are sampled and a row \<open>[1, 1, 0]\<close> comes first, the positions
  \<open>10\<close> and \<open>01\<close> tie at 500 and the reported position is \<open>10\<close>, which is not the
  lexicographically smaller one.
\<close>

theorem most_likely_tie_counterexample:
  "quantum_walk_analysis (replicate 500 [1, 1, 0] @ replicate 500 [0, 0, 1]) =
     Inr \<lparr>position_distribution = [(''10'', 500), (''01'', 500)],
          most_likely_position = ''10''\<rparr>
   \<and> (''01'' :: string) < ''10''"
proof -
  have "quantum_walk_analysis (replicate 500 [1, 1, 0] @ replicate 500 [0, 0, 1]) =
     Inr \<lparr>position_distribution = [(''10'', 500), (''01'', 500)],
          most_likely_position = ''10''\<rparr>"
    by code_simp
  moreover have "(''01'' :: string) < ''10''"
    by (simp add: less_char_def)
  ultimately show ?thesis by simp
qed


section \<open>Errors in \<open>QuantumInterface\<close>\<close>






section \<open>The quantum random generators\<close>


















section \<open>The gates\<close>

lemma sq2: "complex_of_real (sqrt 2) * complex_of_real (sqrt 2) = 2"
  by (metis of_real_mult of_real_numeral real_sqrt_mult_self abs_numeral)

lemma eq_on_refl: "eq_on n v v"
  by (simp add: eq_on_def)

lemma eq_on_trans: "eq_on n u v \<Longrightarrow> eq_on n v w \<Longrightarrow> eq_on n u w"
  by (simp add: eq_on_def)

lemma apply_gate_cong: "eq_on n v w \<Longrightarrow> eq_on n (apply_gate g v) (apply_gate g w)"
  by (cases g) (simp_all add: eq_on_def)

lemma run_cong: "eq_on n v w \<Longrightarrow> eq_on n (run gs v) (run gs w)"
  by (induction gs arbitrary: v w) (simp_all add: apply_gate_cong)

lemma run_append: "run (gs @ hs) v = run hs (run gs v)"
  by (induction gs arbitrary: v) simp_all

lemma H_H:
  assumes "q < n"
  shows "eq_on n (apply_gate (H_gate q) (apply_gate (H_gate q) v)) v"
  unfolding eq_on_def
proof (intro allI impI)
  fix bs :: "bool list"
  assume l: "length bs = n"
  with assms have q: "q < length bs" by simp
  have s: "x / complex_of_real (sqrt 2) / complex_of_real (sqrt 2) = x / 2" for x
    by (simp add: sq2)
  show "apply_gate (H_gate q) (apply_gate (H_gate q) v) bs = v bs"
  proof (cases "bs ! q")
    case True
    then have "bs[q := True] = bs" using list_update_id [of bs q] by simp
    with True q show ?thesis
      by (simp add: diff_divide_distrib [symmetric] add_divide_distrib [symmetric] s sq2)
  next
    case False
    then have "bs[q := False] = bs" using list_update_id [of bs q] by simp
    with False q show ?thesis
      by (simp add: diff_divide_distrib [symmetric] add_divide_distrib [symmetric] s sq2)
  qed
qed

lemma run_phases:
  "run (map (\<lambda>j. CPhase (\<theta> j) (a j) (b j)) js) v bs =
     prod_list (map (\<lambda>j. if bs ! a j \<and> bs ! b j then cis (\<theta> j) else 1) js) * v bs"
  by (induction js arbitrary: v) simp_all

lemma prod_list_inverse_pairs:
  fixes f g :: "'a \<Rightarrow> complex"
  assumes "\<And>x. f x * g x = 1"
  shows "prod_list (map f xs) * prod_list (map g xs) = 1"
proof (induction xs)
  case Nil
  show ?case by simp
next
  case (Cons x xs)
  have "f x * prod_list (map f xs) * (g x * prod_list (map g xs))
        = (f x * g x) * (prod_list (map f xs) * prod_list (map g xs))"
    by (simp add: mult_ac)
  with Cons assms show ?case by simp
qed

lemma phases_cancel:
  "run (map (\<lambda>j. CPhase (\<theta> j) (a j) (b j)) js @ map (\<lambda>j. CPhase (- \<theta> j) (a j) (b j)) js) v bs
     = v bs"
proof -
  have one: "(if bs ! a j \<and> bs ! b j then cis (\<theta> j) else 1)
           * (if bs ! a j \<and> bs ! b j then cis (- \<theta> j) else 1) = 1" for j
    by (simp add: cis_mult)
  have "run (map (\<lambda>j. CPhase (\<theta> j) (a j) (b j)) js @ map (\<lambda>j. CPhase (- \<theta> j) (a j) (b j)) js) v bs
      = prod_list (map (\<lambda>j. if bs ! a j \<and> bs ! b j then cis (- \<theta> j) else 1) js)
        * (prod_list (map (\<lambda>j. if bs ! a j \<and> bs ! b j then cis (\<theta> j) else 1) js) * v bs)"
    by (simp add: run_append run_phases)
  also have "\<dots> = (prod_list (map (\<lambda>j. if bs ! a j \<and> bs ! b j then cis (\<theta> j) else 1) js)
        * prod_list (map (\<lambda>j. if bs ! a j \<and> bs ! b j then cis (- \<theta> j) else 1) js)) * v bs"
    by (simp add: mult_ac)
  also have "\<dots> = v bs"
    by (simp add: prod_list_inverse_pairs [OF one])
  finally show ?thesis .
qed


section \<open>The quantum Fourier transform and its inverse\<close>

lemma qft2: "apply_qft 2 = [H_gate 0, CPhase (pi / 2) 1 0, H_gate 1, SWAP_gate 0 1]"
  by (simp add: apply_qft_def upt_rec)

lemma iqft2: "inverse_qft 2 = [SWAP_gate 0 1, H_gate 0, CPhase (- pi / 2) 0 1, H_gate 1]"
  by (simp add: inverse_qft_def upt_rec)

lemma nth_partial_rev:
  "x < length xs \<Longrightarrow>
   partial_rev k xs ! x = (if x < k \<or> length xs - k \<le> x then xs ! (length xs - 1 - x) else xs ! x)"
  by (simp add: partial_rev_def)

lemma partial_rev_0: "partial_rev 0 bs = bs"
  by (rule nth_equalityI) (simp_all add: partial_rev_def)

lemma partial_rev_step:
  assumes k: "Suc k \<le> n div 2" and l: "length bs = n"
  shows "partial_rev k (bs[k := bs ! (n - 1 - k), n - 1 - k := bs ! k]) = partial_rev (Suc k) bs"
proof (rule nth_equalityI)
  show "length (partial_rev k (bs[k := bs ! (n - 1 - k), n - 1 - k := bs ! k]))
      = length (partial_rev (Suc k) bs)"
    by (simp add: length_partial_rev)
next
  fix p
  assume "p < length (partial_rev k (bs[k := bs ! (n - 1 - k), n - 1 - k := bs ! k]))"
  then have p: "p < n" using l by (simp add: length_partial_rev)
  define a where "a = n - 1 - k"
  define q where "q = n - 1 - p"
  define cs where "cs = bs[k := bs ! a, a := bs ! k]"
  have lcs: "length cs = n" by (simp add: cs_def l)
  from k have ka: "k < a" "a < n" "k < n" unfolding a_def by arith+
  from p have qn: "q < n" unfolding q_def by arith
  have nth: "cs ! x = (if x = a then bs ! k else if x = k then bs ! a else bs ! x)"
    if "x < n" for x
    using that l ka by (simp add: cs_def nth_list_update)
  have lhs: "partial_rev k cs ! p = (if p < k \<or> n - k \<le> p then cs ! q else cs ! p)"
    using nth_partial_rev [of p cs k] p lcs by (simp add: q_def)
  have rhs: "partial_rev (Suc k) bs ! p
      = (if p < Suc k \<or> n - Suc k \<le> p then bs ! q else bs ! p)"
    using nth_partial_rev [of p bs "Suc k"] p l by (simp add: q_def)
  have "partial_rev k cs ! p = partial_rev (Suc k) bs ! p"
  proof -
    consider "p < k" | "p = k" | "k < p" "p < a" | "p = a" | "a < p"
      by arith
    then show ?thesis
    proof cases
      case 1
      with ka p have "q \<noteq> a" "q \<noteq> k" unfolding q_def a_def by arith+
      with 1 show ?thesis unfolding lhs rhs by (simp add: nth [OF qn])
    next
      case 2
      with ka have "\<not> p < k" "\<not> n - k \<le> p" "q = a" unfolding q_def a_def by arith+
      with 2 ka show ?thesis unfolding lhs rhs by (simp add: nth [OF ka(3)] nth [OF ka(2)])
    next
      case 3
      with ka have "\<not> p < k" "\<not> n - k \<le> p" "\<not> p < Suc k" "\<not> n - Suc k \<le> p"
        "p \<noteq> k" "p \<noteq> a" unfolding a_def by arith+
      then show ?thesis unfolding lhs rhs by (simp add: nth [OF p])
    next
      case 4
      with ka p have "\<not> p < k" "\<not> n - k \<le> p" "n - Suc k \<le> p" "q = k"
        unfolding q_def a_def by arith+
      with 4 ka show ?thesis unfolding lhs rhs by (simp add: nth [OF ka(3)] nth [OF ka(2)])
    next
      case 5
      with ka p have "n - k \<le> p" "n - Suc k \<le> p" "q \<noteq> a" "q \<noteq> k"
        unfolding q_def a_def by arith+
      then show ?thesis unfolding lhs rhs by (simp add: nth [OF qn])
    qed
  qed
  then show "partial_rev k (bs[k := bs ! (n - 1 - k), n - 1 - k := bs ! k]) ! p
      = partial_rev (Suc k) bs ! p"
    unfolding cs_def a_def .
qed

lemma run_snoc: "run (gs @ [g]) v = apply_gate g (run gs v)"
  by (simp add: run_append)

lemma run_swap_gates:
  "k \<le> n div 2 \<Longrightarrow> length bs = n \<Longrightarrow> run (swap_gates n k) v bs = v (partial_rev k bs)"
proof (induction k arbitrary: bs)
  case 0
  then show ?case by (simp add: swap_gates_def partial_rev_0)
next
  case (Suc k)
  let ?bs = "bs[k := bs ! (n - 1 - k), n - 1 - k := bs ! k]"
  have "swap_gates n (Suc k) = swap_gates n k @ [SWAP_gate k (n - 1 - k)]"
    by (simp add: swap_gates_def)
  then have "run (swap_gates n (Suc k)) v bs = run (swap_gates n k) v ?bs"
    by (simp add: run_snoc)
  also have "\<dots> = v (partial_rev k ?bs)"
    using Suc.prems by (intro Suc.IH) simp_all
  also have "partial_rev k ?bs = partial_rev (Suc k) bs"
    using Suc.prems by (intro partial_rev_step)
  finally show ?case .
qed

lemma partial_rev_involution:
  assumes "k \<le> length bs"
  shows "partial_rev k (partial_rev k bs) = bs"
proof (rule nth_equalityI)
  show "length (partial_rev k (partial_rev k bs)) = length bs"
    by (simp add: length_partial_rev)
next
  fix p
  assume "p < length (partial_rev k (partial_rev k bs))"
  then have p: "p < length bs" by (simp add: length_partial_rev)
  define n where "n = length bs"
  define q where "q = n - 1 - p"
  from p have qn: "q < n" and qback: "n - 1 - q = p" unfolding q_def n_def by arith+
  have lp: "length (partial_rev k bs) = n" by (simp add: length_partial_rev n_def)
  from p have pl: "p < length (partial_rev k bs)" by (simp add: length_partial_rev)
  show "partial_rev k (partial_rev k bs) ! p = bs ! p"
  proof (cases "p < k \<or> n - k \<le> p")
    case True
    with p assms have c': "q < k \<or> n - k \<le> q" unfolding q_def n_def by arith
    from nth_partial_rev [OF pl, of k] True
    have "partial_rev k (partial_rev k bs) ! p = partial_rev k bs ! q"
      unfolding lp q_def by simp
    also from nth_partial_rev [of q bs k] qn c'
    have "partial_rev k bs ! q = bs ! (n - 1 - q)"
      unfolding n_def by simp
    finally show ?thesis unfolding qback .
  next
    case False
    from nth_partial_rev [OF pl, of k] False
    have "partial_rev k (partial_rev k bs) ! p = partial_rev k bs ! p"
      unfolding lp by simp
    also from nth_partial_rev [OF p, of k] False
    have "partial_rev k bs ! p = bs ! p"
      unfolding n_def by simp
    finally show ?thesis .
  qed
qed

lemma swaps_cancel:
  "eq_on n (run (swap_gates n (n div 2) @ swap_gates n (n div 2)) v) v"
  unfolding eq_on_def
proof (intro allI impI)
  fix bs :: "bool list"
  assume l: "length bs = n"
  have "run (swap_gates n (n div 2) @ swap_gates n (n div 2)) v bs
      = run (swap_gates n (n div 2)) v (partial_rev (n div 2) bs)"
    using l by (simp add: run_append run_swap_gates)
  also have "\<dots> = v (partial_rev (n div 2) (partial_rev (n div 2) bs))"
    using l by (simp add: run_swap_gates length_partial_rev)
  also have "\<dots> = v bs"
    using l by (simp add: partial_rev_involution)
  finally show "run (swap_gates n (n div 2) @ swap_gates n (n div 2)) v bs = v bs" .
qed

lemma inverse_rotations_Suc:
  "inverse_rotations (Suc m) =
     inverse_rotations m @ map (\<lambda>j. CPhase (- (pi / 2 ^ (m - j))) j m) [0..<m] @ [H_gate m]"
  by (simp add: inverse_rotations_def)

lemma rotations_cancel:
  "m \<le> n \<Longrightarrow> eq_on n (run (qft_rotations m @ inverse_rotations m) v) v"
proof (induction m arbitrary: v)
  case 0
  show ?case by (simp add: inverse_rotations_def eq_on_refl)
next
  case (Suc m)
  let ?cps = "map (\<lambda>j. CPhase (pi / 2 ^ (m - j)) j m) [0..<m]"
  let ?icps = "map (\<lambda>j. CPhase (- (pi / 2 ^ (m - j))) j m) [0..<m]"
  let ?h = "apply_gate (H_gate m) v"
  let ?u = "run ?cps ?h"
  have split: "run (qft_rotations (Suc m) @ inverse_rotations (Suc m)) v
      = apply_gate (H_gate m) (run ?icps (run (qft_rotations m @ inverse_rotations m) ?u))"
    by (simp add: inverse_rotations_Suc run_append)
  from Suc.prems have "m \<le> n" by simp
  then have "eq_on n (run (qft_rotations m @ inverse_rotations m) ?u) ?u" by (rule Suc.IH)
  then have a: "eq_on n (apply_gate (H_gate m) (run ?icps (run (qft_rotations m @ inverse_rotations m) ?u)))
                     (apply_gate (H_gate m) (run ?icps ?u))"
    by (intro apply_gate_cong run_cong)
  have b: "run ?icps ?u = ?h"
  proof
    fix bs
    have "run ?icps ?u bs = run (?cps @ ?icps) ?h bs" by (simp add: run_append)
    also have "\<dots> = ?h bs" by (rule phases_cancel)
    finally show "run ?icps ?u bs = ?h bs" .
  qed
  have c: "eq_on n (apply_gate (H_gate m) ?h) v"
    using Suc.prems by (intro H_H) simp
  from a have "eq_on n (apply_gate (H_gate m) (run ?icps (run (qft_rotations m @ inverse_rotations m) ?u)))
                     (apply_gate (H_gate m) ?h)"
    unfolding b .
  from eq_on_trans [OF this c] show ?case
    unfolding split .
qed

text \<open>
  Claim C4, as the code has it.  On every number \<open>n\<close> of qubits, the circuit of
  \<open>quantum_fourier_transform\<close> followed by the circuit of \<open>inverse_qft\<close> gives back every
  amplitude of every state of the register, exactly.
\<close>

theorem qft_round_trip:
  assumes "length bs = n"
  shows "run (quantum_fourier_transform n @ inverse_qft n) v bs = v bs"
proof -
  let ?s = "swap_gates n (n div 2)"
  have q: "quantum_fourier_transform n = qft_rotations n @ ?s"
    by (simp add: quantum_fourier_transform_def swap_gates_def diff_commute)
  have i: "inverse_qft n = ?s @ inverse_rotations n"
    by (simp add: inverse_qft_def swap_gates_def inverse_rotations_def)
  let ?w = "run (qft_rotations n) v"
  have a: "run (quantum_fourier_transform n @ inverse_qft n) v
      = run (inverse_rotations n) (run (?s @ ?s) ?w)"
    by (simp add: q i run_append)
  have b: "eq_on n (run (inverse_rotations n) (run (?s @ ?s) ?w)) (run (inverse_rotations n) ?w)"
    by (intro run_cong swaps_cancel)
  have c: "run (inverse_rotations n) ?w = run (qft_rotations n @ inverse_rotations n) v"
    by (simp add: run_append)
  have d: "eq_on n (run (qft_rotations n @ inverse_rotations n) v) v"
    by (intro rotations_cancel) simp
  from b have "eq_on n (run (quantum_fourier_transform n @ inverse_qft n) v)
      (run (qft_rotations n @ inverse_rotations n) v)"
    unfolding a c .
  from eq_on_trans [OF this d] assms show ?thesis by (simp add: eq_on_def)
qed

theorem qft_round_trip_witness:
  "length [False, True] = 2
   \<and> run (quantum_fourier_transform 2 @ inverse_qft 2) (basis_state [False, True]) [False, True] = 1"
  using qft_round_trip [of "[False, True]" 2 "basis_state [False, True]"]
  by (simp add: basis_state_def)

text \<open>
  Claim C4 as stated fails for the construction \<open>_apply_qft\<close>, which starts at qubit 0:
  followed by \<open>inverse_qft\<close> on two qubits it takes the basis state \<open>|01\<rangle>\<close> to a state
  with the amplitude 1/2 at \<open>|10\<rangle>\<close>, where the initial amplitude is 0.
\<close>

theorem apply_qft_inverse_qft_counterexample:
  "run (apply_qft 2 @ inverse_qft 2) (basis_state [False, True]) [True, False] = 1 / 2
   \<and> basis_state [False, True] [True, False] = 0
   \<and> (1 / 1000000000 :: real) < cmod (1 / 2 - 0)"
proof -
  have "run (apply_qft 2 @ inverse_qft 2) (basis_state [False, True]) [True, False] = 1 / 2"
    unfolding qft2 iqft2
    by (simp add: basis_state_def cis_pi_half cis_minus_pi_half field_simps sq2)
  moreover have "basis_state [False, True] [True, False] = 0"
    by (simp add: basis_state_def)
  moreover have "(1 / 1000000000 :: real) < cmod (1 / 2 - 0)"
    by (simp add: norm_divide)
  ultimately show ?thesis by (intro conjI)
qed


section \<open>BB84 on the noiseless channel\<close>

lemma matching_bases_measure:
  assumes "valid_trial t" and "alice_basis t = bob_basis t"
  shows "bob_measures t = alice_bit t"
proof -
  have s: "x / complex_of_real (sqrt 2) / complex_of_real (sqrt 2) = x / 2" for x
    by (simp add: sq2)
  from assms show ?thesis
    unfolding valid_trial_def bob_measures_def
    by (auto simp: bb84_circuit_def measure_qubit_def basis_state_def
          diff_divide_distrib [symmetric] add_divide_distrib [symmetric] s sq2)
qed

lemma bb84_loop_no_errors:
  assumes "\<And>k. valid_trial (draws k)"
  shows "snd (bb84_loop r k key_length draws shared_key 0) = 0"
  by (induction r arbitrary: k shared_key) (simp_all add: matching_bases_measure [OF assms])

lemma valid_example_trial: "valid_trial (example_trial k)"
  by (simp add: valid_trial_def example_trial_def) presburger

lemma lab_example:
  "lab_bb84_key_distribution 2 example_trial (1 / 40) =
     Inr \<lparr>kd_key_length = 2, kd_key_binary = ''01'', kd_error_rate = 1 / 40,
          kd_security_level = ''HIGH''\<rparr>"
proof -
  have u4: "[0..<4] = [0, 1, 2, 3 :: nat]" by code_simp
  have n: "nat (2 * 2) = 4" by simp
  have a: "map (\<lambda>i. alice_bit (example_trial i)) [0..<4] = [0, 1, 0, 1]"
    by (simp add: u4 example_trial_def)
  have b: "map (\<lambda>i. alice_basis (example_trial i)) [0..<4] = [0, 0, 1, 1]"
    by (simp add: u4 example_trial_def)
  have c: "map (\<lambda>i. bob_basis (example_trial i)) [0..<4] = [1, 1, 1, 1]"
    by (simp add: u4 example_trial_def)
  have l: "length [0, 1, 0, 1 :: int] = 4" by simp
  have f: "filter (\<lambda>i. [0, 0, 1, 1] ! i = [1, 1, 1, 1 :: int] ! i) [0..<4] = [2, 3]"
    by (simp add: u4)
  have s: "map (\<lambda>i. [0, 1, 0, 1 :: int] ! i) [2, 3] = [0, 1]"
    by simp
  have k: "(if 2 \<le> int (length [0, 1 :: int]) then take (nat 2) [0, 1 :: int] else [0, 1]) = [0, 1]"
    by simp
  have j: "join_bits [0, 1] = ''01''"
    by (simp add: join_bits_def str_bit_def)
  have p: "py_int_base2 ''01'' = Inr 1"
    by (simp add: py_int_base2_def is_bitstring_def bit_of_char_def)
  show ?thesis
    unfolding lab_bb84_key_distribution_def Let_def n a b c l f s k j p
    by simp
qed

text \<open>
  Claim C1, as the code has it.  In the BB84 of the laboratories of part 000, whenever
  the bases match Bob's measured bit is Alice's bit, and the error rate reported is
  exactly 0, for every key length and all draws.  The BB84 of quantum implementations
  reports as its error rate the number that \<open>random.uniform(0, 0.05)\<close> gave, whatever was
  measured.
\<close>

theorem bb84_error_rate:
  "((\<forall>k. valid_trial (draws k)) \<longrightarrow> snd (bb84_key_distribution key_length draws) = 0)
   \<and> (valid_trial t \<and> alice_basis t = bob_basis t \<longrightarrow> bob_measures t = alice_bit t)
   \<and> (lab_bb84_key_distribution key_length draws u = Inr r \<longrightarrow> kd_error_rate r = u)"
proof (intro conjI; rule impI)
  assume v: "\<forall>k. valid_trial (draws k)"
  obtain shared_key errors where
    l: "bb84_loop (nat (key_length * 2)) 0 key_length draws [] 0 = (shared_key, errors)"
    by (cases "bb84_loop (nat (key_length * 2)) 0 key_length draws [] 0")
  from v have "snd (bb84_loop (nat (key_length * 2)) 0 key_length draws [] 0) = 0"
    by (intro bb84_loop_no_errors) simp
  with l have "errors = 0" by simp
  with l show "snd (bb84_key_distribution key_length draws) = 0"
    by (simp add: bb84_key_distribution_def)
next
  assume "valid_trial t \<and> alice_basis t = bob_basis t"
  then show "bob_measures t = alice_bit t"
    by (intro matching_bases_measure) simp_all
next
  assume "lab_bb84_key_distribution key_length draws u = Inr r"
  then show "kd_error_rate r = u"
    by (auto simp: lab_bb84_key_distribution_def Let_def split: sum.splits)
qed

theorem bb84_error_rate_witness:
  "(\<forall>k. valid_trial (example_trial k))
   \<and> snd (bb84_key_distribution 2 example_trial) = 0
   \<and> alice_basis (example_trial 2) = bob_basis (example_trial 2)
   \<and> bob_measures (example_trial 2) = alice_bit (example_trial 2)
   \<and> lab_bb84_key_distribution 2 example_trial (1 / 40) =
       Inr \<lparr>kd_key_length = 2, kd_key_binary = ''01'', kd_error_rate = 1 / 40,
            kd_security_level = ''HIGH''\<rparr>"
proof -
  have v: "\<forall>k. valid_trial (example_trial k)" by (simp add: valid_example_trial)
  have m: "alice_basis (example_trial 2) = bob_basis (example_trial 2)"
    by (simp add: example_trial_def)
  note inst = bb84_error_rate [of example_trial 2 "example_trial 2" "1 / 40"
              "\<lparr>kd_key_length = 2, kd_key_binary = ''01'', kd_error_rate = 1 / 40,
                kd_security_level = ''HIGH''\<rparr>"]
  from inst v have e: "snd (bb84_key_distribution 2 example_trial) = 0" by blast
  from inst v m have b: "bob_measures (example_trial 2) = alice_bit (example_trial 2)" by blast
  from v e m b lab_example show ?thesis by (intro conjI)
qed

text \<open>
  Claim C1 as stated fails for the BB84 of quantum implementations: with no noise
  modelled, a run for \<open>key_length = 2\<close> in which \<open>random.uniform(0, 0.05)\<close> gives 0.025
  reports the error rate 0.025.
\<close>

theorem lab_bb84_error_rate_counterexample:
  "lab_bb84_key_distribution 2 example_trial (1 / 40) =
     Inr \<lparr>kd_key_length = 2, kd_key_binary = ''01'', kd_error_rate = 1 / 40,
          kd_security_level = ''HIGH''\<rparr>
   \<and> (1 / 40 :: real) \<noteq> 0"
  using lab_example by simp


section \<open>Quantum teleportation\<close>

lemma labels3: "List.n_lists 3 [False, True] =
  [ [False, False, False], [True, False, False], [False, True, False], [True, True, False],
   [False, False, True], [True, False, True], [False, True, True], [True, True, True]]"
  by code_simp

lemma teleportation_amplitudes:
  "final_state 3 quantum_teleportation_circuit [False, False, False] = 0"
  "final_state 3 quantum_teleportation_circuit [True, False, False] = 0"
  "final_state 3 quantum_teleportation_circuit [False, True, False] = 1 / 2"
  "final_state 3 quantum_teleportation_circuit [True, True, False] = - 1 / 2"
  "final_state 3 quantum_teleportation_circuit [False, False, True] = 1 / 2"
  "final_state 3 quantum_teleportation_circuit [True, False, True] = - 1 / 2"
  "final_state 3 quantum_teleportation_circuit [False, True, True] = 0"
  "final_state 3 quantum_teleportation_circuit [True, True, True] = 0"
  by (simp_all add: final_state_def quantum_teleportation_circuit_def basis_state_def
        numeral_3_eq_3 numeral_2_eq_2 field_simps sq2)

lemma teleportation_probabilities:
  "probability (final_state 3 quantum_teleportation_circuit) [False, False, False] = 0"
  "probability (final_state 3 quantum_teleportation_circuit) [True, False, False] = 0"
  "probability (final_state 3 quantum_teleportation_circuit) [False, True, False] = 1 / 4"
  "probability (final_state 3 quantum_teleportation_circuit) [True, True, False] = 1 / 4"
  "probability (final_state 3 quantum_teleportation_circuit) [False, False, True] = 1 / 4"
  "probability (final_state 3 quantum_teleportation_circuit) [True, False, True] = 1 / 4"
  "probability (final_state 3 quantum_teleportation_circuit) [False, True, True] = 0"
  "probability (final_state 3 quantum_teleportation_circuit) [True, True, True] = 0"
  by (simp_all add: probability_def teleportation_amplitudes norm_divide power2_eq_square)

text \<open>
  Claim C3, as the code has it.  In both teleportation circuits no gate follows the first
  measurement, so no correction is applied to the receiver's qubit before it is measured.
  In \<open>quantum_teleportation\<close>, whose message is \<open>|1\<rangle>\<close>, the four outcomes in which Bob's
  bit is the negation of the bit of Alice's entangled qubit have the probability 1/4
  each, and Bob reads 1 with the probability 1/2.
\<close>

theorem teleportation_without_correction:
  "gates_after_measurement quantum_teleportation_circuit = []
   \<and> gates_after_measurement cirq_quantum_teleportation_circuit = []
   \<and> probability (final_state 3 quantum_teleportation_circuit) [False, False, True] = 1 / 4
   \<and> probability (final_state 3 quantum_teleportation_circuit) [True, False, True] = 1 / 4
   \<and> probability (final_state 3 quantum_teleportation_circuit) [False, True, False] = 1 / 4
   \<and> probability (final_state 3 quantum_teleportation_circuit) [True, True, False] = 1 / 4
   \<and> probability_that 3 (final_state 3 quantum_teleportation_circuit) bob_reads_one = 1 / 2"
proof -
  have a: "gates_after_measurement quantum_teleportation_circuit = []"
    by (simp add: quantum_teleportation_circuit_def)
  have b: "gates_after_measurement cirq_quantum_teleportation_circuit = []"
    by (simp add: cirq_quantum_teleportation_circuit_def)
  have c: "probability_that 3 (final_state 3 quantum_teleportation_circuit) bob_reads_one = 1 / 2"
    unfolding probability_that_def labels3
    by (simp add: bob_reads_one_def teleportation_probabilities)
  from a b teleportation_probabilities(5) teleportation_probabilities(6) teleportation_probabilities(3) teleportation_probabilities(4) c show ?thesis by (intro conjI)
qed

text \<open>
  Claim C3 as stated fails: the outcome in which Alice reads 0 and 1 and Bob reads 0, not
  the state 1 of the message, has the probability 1/4, and 100 such rows give the
  success rate 0.
\<close>

theorem teleportation_counterexample:
  "probability (final_state 3 quantum_teleportation_circuit) [False, True, False] = 1 / 4
   \<and> \<not> bob_reads_one [False, True, False]
   \<and> quantum_teleportation_result (replicate 100 ([0, 1], [0])) =
        \<lparr>success_rate = 0, total_attempts = 100\<rparr>"
proof -
  have "filter (\<lambda>(alice, bob). take 1 bob = [1]) (replicate n ([0, 1], [0 :: int])) = []" for n
    by (induction n) simp_all
  then have "quantum_teleportation_result (replicate 100 ([0, 1], [0])) =
        \<lparr>success_rate = 0, total_attempts = 100\<rparr>"
    by (simp add: quantum_teleportation_result_def)
  moreover have "\<not> bob_reads_one [False, True, False]"
    by (simp add: bob_reads_one_def)
  ultimately show ?thesis using teleportation_probabilities(3) by (intro conjI)
qed

end
